theory Spec2Isabelle
  imports Main "HOL-Library.Word" "HOL-Library.Signed_Division"
begin

unbundle bit_operations_syntax

section \<open>Machine integers of predict.c\<close>

text \<open>
  predict.c computes with \<^verbatim>\<open>long long\<close>, \<open>long\<close> and \<open>unsigned long\<close>, all 64 bits
  wide on the LP64 targets the daemon is built for, and once with \<open>int\<close> (the argument
  and result of \<open>abs\<close> from stdlib.h). They are modelled as 64-bit and 32-bit words:
  addition, subtraction and multiplication wrap around, \<open>sint\<close> reads a word as a signed
  value, the order \<open>\<le>\<close> on words is the unsigned one and \<open><s\<close>, \<open>\<le>s\<close> are the
  signed ones.

  C's \<open>/\<close> on signed operands truncates towards zero; on unsigned operands it is the
  division of the unsigned values. A zero divisor traps, which the model makes a value.
\<close>

type_synonym i64 = "64 word"
type_synonym i32 = "32 word"

datatype fault = DivByZero

definition c_sdiv :: "i64 \<Rightarrow> i64 \<Rightarrow> fault + i64" where
  "c_sdiv a b = (if b = 0 then Inl DivByZero else Inr (word_of_int (sint a sdiv sint b)))"

definition c_udiv :: "i64 \<Rightarrow> i64 \<Rightarrow> fault + i64" where
  "c_udiv a b = (if b = 0 then Inl DivByZero else Inr (a div b))"

text \<open>\<open>int abs(int)\<close> of stdlib.h, on the 32-bit representation.\<close>

definition abs_int :: "i32 \<Rightarrow> i32" where
  "abs_int j = (if j <s 0 then - j else j)"

section \<open>The trend estimator: \<open>lsq_fit\<close>\<close>

text \<open>
  Modelled from the spec: \<open>struct lsq_struct\<close>, declared in predict.h, which is not
  among the sources. The specification describes a ring of \<open>W\<close> samples with a write
  cursor and a ready flag, and \<open>lsq_fit\<close> uses the fields accordingly: the cursor
  \<open>next\<close> (an array index, here a natural number), the flag \<open>ready\<close> (only set to 1 and
  tested against 0, here a Boolean) and the two arrays \<open>x\<close> and \<open>y\<close> of \<open>LSQ_LOOKBACK\<close>
  samples, which receive the \<^verbatim>\<open>long long\<close> arguments of \<open>lsq_fit\<close>. The constant
  \<open>LSQ_LOOKBACK\<close> of the same header is the parameter \<open>W\<close> of every function below.
\<close>

record lsq_struct =
  lsq_next :: nat
  lsq_ready :: bool
  lsq_x :: "i64 list"
  lsq_y :: "i64 list"

text \<open>
  A C array access outside the array is undefined; the model is meant for states in
  which both arrays have \<open>W\<close> entries and the cursor is inside them.
\<close>

definition lsq_wf :: "nat \<Rightarrow> lsq_struct \<Rightarrow> bool" where
  "lsq_wf W lsq \<longleftrightarrow> length (lsq_x lsq) = W \<and> length (lsq_y lsq) = W \<and> lsq_next lsq < W"

text \<open>The loop \<^verbatim>\<open>for (i = 0; i < LSQ_LOOKBACK; i++) lsq->x[i] -= x_offset;\<close>\<close>

function translate_x :: "nat \<Rightarrow> i64 \<Rightarrow> i64 list \<Rightarrow> nat \<Rightarrow> i64 list" where
  "translate_x W x_offset xs i =
     (if i < W then translate_x W x_offset (xs[i := xs ! i - x_offset]) (Suc i) else xs)"
  by pat_completeness auto
termination
  by (relation "measure (\<lambda>(W, x_offset, xs, i). W - i)") auto

text \<open>The loop \<^verbatim>\<open>for (i = 0; i < LSQ_LOOKBACK; i++) lsq->x[i] += x_offset;\<close>\<close>

function restore_x :: "nat \<Rightarrow> i64 \<Rightarrow> i64 list \<Rightarrow> nat \<Rightarrow> i64 list" where
  "restore_x W x_offset xs i =
     (if i < W then restore_x W x_offset (xs[i := xs ! i + x_offset]) (Suc i) else xs)"
  by pat_completeness auto
termination
  by (relation "measure (\<lambda>(W, x_offset, xs, i). W - i)") auto

text \<open>The loop accumulating \<open>sigma_x\<close>, \<open>sigma_y\<close>, \<open>sigma_xy\<close> and \<open>sigma_xx\<close>.\<close>

function sigma_loop ::
  "nat \<Rightarrow> i64 list \<Rightarrow> i64 list \<Rightarrow> nat \<Rightarrow> i64 \<times> i64 \<times> i64 \<times> i64 \<Rightarrow> i64 \<times> i64 \<times> i64 \<times> i64" where
  "sigma_loop W xs ys i (sigma_x, sigma_y, sigma_xy, sigma_xx) =
     (if i < W
      then sigma_loop W xs ys (Suc i)
             (sigma_x + xs ! i, sigma_y + ys ! i,
              sigma_xy + xs ! i * ys ! i, sigma_xx + xs ! i * xs ! i)
      else (sigma_x, sigma_y, sigma_xy, sigma_xx))"
  by pat_completeness auto
termination
  by (relation "measure (\<lambda>(W, xs, ys, i, acc). W - i)") auto

declare translate_x.simps [simp del] restore_x.simps [simp del] sigma_loop.simps [simp del]

text \<open>
  \<open>lsq_fit\<close> returns the updated estimator and, for the return value 0, the pair
  \<open>(m, c)\<close> written through the two pointers; the return value \<open>-1\<close> is \<open>None\<close>.
  The second \<^verbatim>\<open>return -1\<close> leaves the function before the loop that restores the
  time coordinates.
\<close>

definition lsq_fit ::
  "nat \<Rightarrow> lsq_struct \<Rightarrow> i64 \<Rightarrow> i64 \<Rightarrow> fault + (lsq_struct \<times> (i64 \<times> i64) option)" where
  "lsq_fit W lsq new_y new_x =
     (let nxt = lsq_next lsq;
          lsq1 = lsq\<lparr>lsq_next := Suc nxt,
                     lsq_x := (lsq_x lsq)[nxt := new_x],
                     lsq_y := (lsq_y lsq)[nxt := new_y]\<rparr>;
          lsq2 = (if lsq_next lsq1 = W then lsq1\<lparr>lsq_next := 0, lsq_ready := True\<rparr> else lsq1)
      in if \<not> lsq_ready lsq2 then Inr (lsq2, None)
         else
           let x_offset = lsq_x lsq2 ! lsq_next lsq2;
               lsq3 = lsq2\<lparr>lsq_x := translate_x W x_offset (lsq_x lsq2) 0\<rparr>;
               (sigma_x, sigma_y, sigma_xy, sigma_xx) =
                  sigma_loop W (lsq_x lsq3) (lsq_y lsq3) 0 (0, 0, 0, 0);
               slope_divisor = of_nat W * sigma_xx - sigma_x * sigma_x
           in if slope_divisor = 0 then Inr (lsq3, None)
              else
                case c_sdiv ((of_nat W * sigma_xy - sigma_x * sigma_y) * 100) slope_divisor of
                  Inl e \<Rightarrow> Inl e
                | Inr m \<Rightarrow>
                   (case c_sdiv (sigma_y - m * sigma_x) (of_nat W) of
                      Inl e \<Rightarrow> Inl e
                    | Inr c \<Rightarrow>
                        Inr (lsq3\<lparr>lsq_x := restore_x W x_offset (lsq_x lsq3) 0\<rparr>, Some (m, c))))"

section \<open>The prediction engine: \<open>predict\<close>\<close>

text \<open>
  Modelled from the spec: \<open>struct frag_info\<close>, the constant \<open>MAX_ORDER\<close>, the three
  result bits \<open>MEMPREDICT_RECLAIM\<close>, \<open>MEMPREDICT_COMPACT\<close> and
  \<open>MEMPREDICT_LOWER_WMARKS\<close>, and the globals \<open>reclaim_rate\<close> and \<open>compaction_rate\<close>,
  all declared in predict.h, which is not among the sources. The constants and the
  rates are parameters of the model, collected in one record. The two fields of
  \<open>frag_info\<close> (a free-page count and a time in milliseconds) are passed to the
  \<^verbatim>\<open>long long\<close> parameters of \<open>lsq_fit\<close>; the two rates are printed with \<open>%ld\<close> and
  are taken as \<open>long\<close>. \<open>verbose\<close>, \<open>nid\<close> and the calls of \<open>log_info\<close> only produce
  diagnostics and are left out.
\<close>

record frag_info =
  free_pages :: i64
  msecs :: i64

record timespec =
  tv_sec :: i64
  tv_nsec :: i64

record predict_env =
  LSQ_LOOKBACK :: nat
  MAX_ORDER :: nat
  MEMPREDICT_RECLAIM :: i64
  MEMPREDICT_COMPACT :: i64
  MEMPREDICT_LOWER_WMARKS :: i64
  reclaim_rate :: i64
  compaction_rate :: i64

text \<open>
  The first loop of \<open>predict\<close>: one call of \<open>lsq_fit\<close> per order, writing \<open>m[order]\<close>
  and \<open>c[order]\<close> and clearing \<open>is_ready\<close> when a call returns \<open>-1\<close>. The loop does
  not stop at such an order.
\<close>

function fit_loop ::
  "nat \<Rightarrow> nat \<Rightarrow> frag_info list \<Rightarrow> nat \<Rightarrow> lsq_struct list \<times> i64 list \<times> i64 list \<times> bool
     \<Rightarrow> fault + (lsq_struct list \<times> i64 list \<times> i64 list \<times> bool)" where
  "fit_loop W N frag_vec order (lsq, m, c, is_ready) =
     (if order < N then
        (case lsq_fit W (lsq ! order) (free_pages (frag_vec ! order)) (msecs (frag_vec ! order)) of
           Inl e \<Rightarrow> Inl e
         | Inr (l, None) \<Rightarrow> fit_loop W N frag_vec (Suc order) (lsq[order := l], m, c, False)
         | Inr (l, Some (mo, co)) \<Rightarrow>
             fit_loop W N frag_vec (Suc order)
               (lsq[order := l], m[order := mo], c[order := co], is_ready))
      else Inr (lsq, m, c, is_ready))"
  by pat_completeness auto
termination
  by (relation "measure (\<lambda>(W, N, frag_vec, order, st). N - order)") auto

declare fit_loop.simps [simp del]

text \<open>
  The branch on the slope of order 0 either leaves \<open>predict\<close> with \<^verbatim>\<open>return 0\<close> or
  goes on to the compaction loop with the bits collected in \<open>retval\<close>.
\<close>

datatype outcome = Return i64 | Continue i64

text \<open>
  In \<^verbatim>\<open>(frag_vec[0].free_pages - high_wmark) / abs(m[0])\<close> the function \<open>abs\<close> is
  the one of stdlib.h: \<open>m[0]\<close> is converted to \<open>int\<close>, and the \<open>int\<close> result is
  converted (with sign extension) to the unsigned 64-bit type of the dividend. The
  comparison with \<open>high_wmark\<close> and both divisions are unsigned, since \<open>high_wmark\<close> is
  an \<open>unsigned long\<close>.
\<close>

definition reclaim_branch :: "predict_env \<Rightarrow> i64 \<Rightarrow> i64 \<Rightarrow> i64 \<Rightarrow> i64 \<Rightarrow> fault + outcome" where
  "reclaim_branch env m0 fp high_wmark retval =
     (if 0 \<le>s m0 then Inr (Continue (retval OR MEMPREDICT_LOWER_WMARKS env))
      else if reclaim_rate env = 0 then Inr (Return 0)
      else if fp \<le> high_wmark then Inr (Continue (retval OR MEMPREDICT_RECLAIM env))
      else
        case c_udiv (fp - high_wmark) (scast (abs_int (ucast m0))) of
          Inl e \<Rightarrow> Inl e
        | Inr time_taken \<Rightarrow>
           (case c_udiv (fp - high_wmark) (reclaim_rate env) of
              Inl e \<Rightarrow> Inl e
            | Inr time_to_catchup \<Rightarrow>
                if time_to_catchup \<le> time_taken
                then Inr (Continue (retval OR MEMPREDICT_RECLAIM env))
                else Inr (Continue retval)))"

text \<open>
  The expression \<^verbatim>\<open>tspec.tv_sec*1000 + tspec.tv_nsec/1000\<close> that \<open>x_cross\<close> is compared
  with, and the expression \<^verbatim>\<open>x_cross - (tspec.tv_sec * 1000) + (tspec.tv_nsec / 1000)\<close>
  assigned to \<open>time_taken\<close>. The divisor 1000 is a literal.
\<close>

definition sdiv_const :: "i64 \<Rightarrow> int \<Rightarrow> i64" where
  "sdiv_const a k = word_of_int (sint a sdiv k)"

definition clock_expr :: "timespec \<Rightarrow> i64" where
  "clock_expr tspec = tv_sec tspec * 1000 + sdiv_const (tv_nsec tspec) 1000"

definition time_taken_expr :: "i64 \<Rightarrow> timespec \<Rightarrow> i64" where
  "time_taken_expr x_cross tspec =
     x_cross - tv_sec tspec * 1000 + sdiv_const (tv_nsec tspec) 1000"

text \<open>
  The loop \<^verbatim>\<open>for (order = MAX_ORDER-1; order > 0; order--)\<close>, called with the
  starting order. \<open>clock order\<close> is the value that \<open>clock_gettime\<close> stores when that
  order is examined. \<open>time_taken\<close> and \<open>time_to_catchup\<close> are \<open>unsigned long\<close>, so
  their comparison is unsigned.
\<close>

fun compact_scan ::
  "predict_env \<Rightarrow> (nat \<Rightarrow> timespec) \<Rightarrow> i64 list \<Rightarrow> i64 list \<Rightarrow> i64 \<Rightarrow> nat \<Rightarrow> fault + i64" where
  "compact_scan env clock m c retval 0 = Inr retval"
| "compact_scan env clock m c retval (Suc k) =
     (let order = Suc k in
      if m ! 0 = m ! order then compact_scan env clock m c retval k
      else if compaction_rate env = 0 then Inr 0
      else
        case c_sdiv ((c ! 0 - c ! order) * 100) (m ! order - m ! 0) of
          Inl e \<Rightarrow> Inl e
        | Inr x_cross \<Rightarrow>
           (case c_sdiv (m ! order * c ! 0 - m ! 0 * c ! order) (m ! order - m ! 0) of
              Inl e \<Rightarrow> Inl e
            | Inr y_cross \<Rightarrow>
               (let tspec = clock order in
                if x_cross <s 0 \<or> x_cross <s clock_expr tspec
                then Inr (retval OR MEMPREDICT_COMPACT env)
                else
                  let time_taken = time_taken_expr x_cross tspec in
                  case c_sdiv (c ! 0 - y_cross) (compaction_rate env) of
                    Inl e \<Rightarrow> Inl e
                  | Inr time_to_catchup \<Rightarrow>
                      if time_to_catchup \<le> time_taken
                      then Inr (retval OR MEMPREDICT_COMPACT env)
                      else compact_scan env clock m c retval k)))"

text \<open>
  \<open>predict\<close> returns the estimators as it leaves them and the result bits. The arrays
  \<open>m\<close> and \<open>c\<close> are uninitialised locals in C; they are read only when every entry has
  been written, so their initial contents (here zeros) do not reach the result.
\<close>

definition predict ::
  "predict_env \<Rightarrow> (nat \<Rightarrow> timespec) \<Rightarrow> frag_info list \<Rightarrow> lsq_struct list \<Rightarrow> i64
     \<Rightarrow> fault + (lsq_struct list \<times> i64)" where
  "predict env clock frag_vec lsq high_wmark =
     (let retval = 0 in
      case fit_loop (LSQ_LOOKBACK env) (MAX_ORDER env) frag_vec 0
             (lsq, replicate (MAX_ORDER env) 0, replicate (MAX_ORDER env) 0, True) of
        Inl e \<Rightarrow> Inl e
      | Inr (lsq', m, c, is_ready) \<Rightarrow>
          if \<not> is_ready then Inr (lsq', retval)
          else
            (case reclaim_branch env (m ! 0) (free_pages (frag_vec ! 0)) high_wmark retval of
               Inl e \<Rightarrow> Inl e
             | Inr (Return r) \<Rightarrow> Inr (lsq', r)
             | Inr (Continue retval') \<Rightarrow>
                (case compact_scan env clock m c retval' (MAX_ORDER env - 1) of
                   Inl e \<Rightarrow> Inl e
                 | Inr r \<Rightarrow> Inr (lsq', r))))"

section \<open>Notions of the specification\<close>

text \<open>
  The estimator after the first part of \<open>lsq_fit\<close> (the store of the new sample, the
  advance of the cursor and the setting of \<open>ready\<close>), as one update.
\<close>

definition insert_sample :: "nat \<Rightarrow> lsq_struct \<Rightarrow> i64 \<Rightarrow> i64 \<Rightarrow> lsq_struct" where
  "insert_sample W lsq new_y new_x =
     lsq\<lparr>lsq_next := (if Suc (lsq_next lsq) = W then 0 else Suc (lsq_next lsq)),
         lsq_ready := (lsq_ready lsq \<or> Suc (lsq_next lsq) = W),
         lsq_x := (lsq_x lsq)[lsq_next lsq := new_x],
         lsq_y := (lsq_y lsq)[lsq_next lsq := new_y]\<rparr>"

text \<open>
  The closed form of the specification, in its words: translate the time coordinates by
  the time of the oldest sample, take the four sums over the \<open>W\<close> translated points,
  report no line when the denominator is zero, and otherwise the slope scaled by 100 and
  the intercept, both by integer division (C's, which truncates towards zero). The
  arithmetic is that of the 64-bit integers of the code.
\<close>

definition lsq_line :: "nat \<Rightarrow> i64 \<Rightarrow> i64 list \<Rightarrow> i64 list \<Rightarrow> (i64 \<times> i64) option" where
  "lsq_line W oldest xs ys =
     (let tx = map (\<lambda>x. x - oldest) xs;
          Sx = sum_list tx;
          Sy = sum_list ys;
          Sxy = sum_list (map2 (*) tx ys);
          Sxx = sum_list (map (\<lambda>x. x * x) tx);
          denominator = of_nat W * Sxx - Sx * Sx
      in if denominator = 0 then None
         else
           let slope = word_of_int (sint ((of_nat W * Sxy - Sx * Sy) * 100) sdiv sint denominator);
               intercept = word_of_int (sint (Sy - slope * Sx) sdiv int W)
           in Some (slope, intercept))"

text \<open>
  The same closed form over the integers, on the translated times and the values read
  as signed numbers, and a range inside that of a signed 64-bit integer.
\<close>

definition fits64 :: "int \<Rightarrow> bool" where
  "fits64 z \<longleftrightarrow> \<bar>z\<bar> < 2 ^ 63"

definition lsq_line_int :: "nat \<Rightarrow> int list \<Rightarrow> int list \<Rightarrow> (int \<times> int) option" where
  "lsq_line_int W tx ys =
     (let Sx = sum_list tx;
          Sy = sum_list ys;
          Sxy = sum_list (map2 (*) tx ys);
          Sxx = sum_list (map (\<lambda>x. x * x) tx);
          denominator = int W * Sxx - Sx * Sx
      in if denominator = 0 then None
         else
           let slope = ((int W * Sxy - Sx * Sy) * 100) sdiv denominator;
               intercept = (Sy - slope * Sx) sdiv int W
           in Some (slope, intercept))"

text \<open>The line, if any, that a call of \<open>lsq_fit\<close> hands back.\<close>

definition returned_line :: "fault + (lsq_struct \<times> (i64 \<times> i64) option) \<Rightarrow> (i64 \<times> i64) option" where
  "returned_line r = (case r of Inl e \<Rightarrow> None | Inr (lsq, mc) \<Rightarrow> mc)"

text \<open>An alternate run in which \<open>k\<close> is added to every stored time coordinate.\<close>

definition shift_time :: "i64 \<Rightarrow> lsq_struct \<Rightarrow> lsq_struct" where
  "shift_time k lsq = lsq\<lparr>lsq_x := map (\<lambda>x. x + k) (lsq_x lsq)\<rparr>"

text \<open>A sequence of observations \<open>(new_y, new_x)\<close> fed to one estimator, call by call.\<close>

fun observe_all :: "nat \<Rightarrow> lsq_struct \<Rightarrow> (i64 \<times> i64) list \<Rightarrow> fault + lsq_struct" where
  "observe_all W lsq [] = Inr lsq"
| "observe_all W lsq ((new_y, new_x) # obs) =
     (case lsq_fit W lsq new_y new_x of
        Inl e \<Rightarrow> Inl e
      | Inr (lsq', mc) \<Rightarrow> observe_all W lsq' obs)"

text \<open>
  The line that the first loop of \<open>predict\<close> obtains for an order: the estimators of
  different orders are separate array elements, so the call for an order sees the
  estimator that \<open>predict\<close> was given.
\<close>

definition order_fit :: "nat \<Rightarrow> frag_info list \<Rightarrow> lsq_struct list \<Rightarrow> nat \<Rightarrow> (i64 \<times> i64) option" where
  "order_fit W frag_vec lsq order =
     returned_line (lsq_fit W (lsq ! order) (free_pages (frag_vec ! order)) (msecs (frag_vec ! order)))"

text \<open>
  The arguments \<open>predict\<close> is meant for: \<open>MAX_ORDER\<close> samples and \<open>MAX_ORDER\<close>
  well-formed estimators, at least one order, and a window length that fits an \<open>int\<close>.
\<close>

definition predict_wf :: "predict_env \<Rightarrow> frag_info list \<Rightarrow> lsq_struct list \<Rightarrow> bool" where
  "predict_wf env frag_vec lsq \<longleftrightarrow>
     0 < MAX_ORDER env \<and> LSQ_LOOKBACK env < 2 ^ 31 \<and>
     length frag_vec = MAX_ORDER env \<and> length lsq = MAX_ORDER env \<and>
     (\<forall>j<MAX_ORDER env. lsq_wf (LSQ_LOOKBACK env) (lsq ! j))"

text \<open>The bits that the branch on order 0 leaves in either of its two outcomes.\<close>

fun outcome_flags :: "outcome \<Rightarrow> i64" where
  "outcome_flags (Return r) = r"
| "outcome_flags (Continue r) = r"

text \<open>
  The quantities of the compaction rule in the words of the specification: the current
  wall-clock time in milliseconds, the crossing point of the lines of order 0 and of a
  higher order, and the time compaction needs.
\<close>

definition now_msec :: "timespec \<Rightarrow> i64" where
  "now_msec tspec = tv_sec tspec * 1000 + sdiv_const (tv_nsec tspec) 1000000"





subsection \<open>Data for the examples\<close>

text \<open>
  An environment with the result bits 1 (reclaim), 2 (compact) and 4 (lower watermarks),
  an estimator of window length 2 that holds one sample taken at time 0, and a clock
  that gives the same reading for every order.
\<close>

definition ex_env :: "nat \<Rightarrow> nat \<Rightarrow> i64 \<Rightarrow> i64 \<Rightarrow> predict_env" where
  "ex_env W N rr cr =
     \<lparr>LSQ_LOOKBACK = W, MAX_ORDER = N, MEMPREDICT_RECLAIM = 1, MEMPREDICT_COMPACT = 2,
      MEMPREDICT_LOWER_WMARKS = 4, reclaim_rate = rr, compaction_rate = cr\<rparr>"

definition one_sample :: "i64 \<Rightarrow> lsq_struct" where
  "one_sample y0 = \<lparr>lsq_next = 1, lsq_ready = False, lsq_x = [0, 0], lsq_y = [y0, 0]\<rparr>"

definition clock_at :: "i64 \<Rightarrow> i64 \<Rightarrow> nat \<Rightarrow> timespec" where
  "clock_at s ns order = \<lparr>tv_sec = s, tv_nsec = ns\<rparr>"

section \<open>The loops of \<open>lsq_fit\<close>\<close>

lemma translate_x_from:
  "i \<le> W \<Longrightarrow> length xs = W \<Longrightarrow>
   translate_x W off xs i = take i xs @ map (\<lambda>v. v - off) (drop i xs)"
proof (induction W off xs i rule: translate_x.induct)
  case (1 W off xs i)
  show ?case
  proof (cases "i < W")
    case True
    let ?ys = "xs[i := xs ! i - off]"
    have "translate_x W off xs i = translate_x W off ?ys (Suc i)"
      using True by (subst translate_x.simps) simp
    also have "\<dots> = take (Suc i) ?ys @ map (\<lambda>v. v - off) (drop (Suc i) ?ys)"
      using True "1.prems" by (intro "1.IH") simp_all
    also have "\<dots> = take i xs @ map (\<lambda>v. v - off) (drop i xs)"
      using True "1.prems"
      by (simp add: take_Suc_conv_app_nth Cons_nth_drop_Suc [symmetric])
    finally show ?thesis .
  next
    case False
    with "1.prems" show ?thesis by (subst translate_x.simps) simp
  qed
qed

lemma restore_x_from:
  "i \<le> W \<Longrightarrow> length xs = W \<Longrightarrow>
   restore_x W off xs i = take i xs @ map (\<lambda>v. v + off) (drop i xs)"
proof (induction W off xs i rule: restore_x.induct)
  case (1 W off xs i)
  show ?case
  proof (cases "i < W")
    case True
    let ?ys = "xs[i := xs ! i + off]"
    have "restore_x W off xs i = restore_x W off ?ys (Suc i)"
      using True by (subst restore_x.simps) simp
    also have "\<dots> = take (Suc i) ?ys @ map (\<lambda>v. v + off) (drop (Suc i) ?ys)"
      using True "1.prems" by (intro "1.IH") simp_all
    also have "\<dots> = take i xs @ map (\<lambda>v. v + off) (drop i xs)"
      using True "1.prems"
      by (simp add: take_Suc_conv_app_nth Cons_nth_drop_Suc [symmetric])
    finally show ?thesis .
  next
    case False
    with "1.prems" show ?thesis by (subst restore_x.simps) simp
  qed
qed

lemma sigma_loop_from:
  "i \<le> W \<Longrightarrow> length xs = W \<Longrightarrow> length ys = W \<Longrightarrow>
   sigma_loop W xs ys i (a, b, p, q) =
     (a + sum_list (drop i xs), b + sum_list (drop i ys),
      p + sum_list (map2 (*) (drop i xs) (drop i ys)),
      q + sum_list (map (\<lambda>v. v * v) (drop i xs)))"
proof (induction W xs ys i "(a, b, p, q)" arbitrary: a b p q rule: sigma_loop.induct)
  case (1 W xs ys i a b p q)
  show ?case
  proof (cases "i < W")
    case True
    have dx: "drop i xs = xs ! i # drop (Suc i) xs" and dy: "drop i ys = ys ! i # drop (Suc i) ys"
      using True "1.prems" by (simp_all add: Cons_nth_drop_Suc)
    have "sigma_loop W xs ys i (a, b, p, q) =
          sigma_loop W xs ys (Suc i)
            (a + xs ! i, b + ys ! i, p + xs ! i * ys ! i, q + xs ! i * xs ! i)"
      using True by (subst sigma_loop.simps) simp
    also have "\<dots> =
        (a + xs ! i + sum_list (drop (Suc i) xs), b + ys ! i + sum_list (drop (Suc i) ys),
         p + xs ! i * ys ! i + sum_list (map2 (*) (drop (Suc i) xs) (drop (Suc i) ys)),
         q + xs ! i * xs ! i + sum_list (map (\<lambda>v. v * v) (drop (Suc i) xs)))"
      using True "1.prems" by (intro "1.hyps") simp_all
    finally show ?thesis by (simp add: dx dy add.assoc)
  next
    case False
    with "1.prems" show ?thesis by (subst sigma_loop.simps) simp
  qed
qed

section \<open>What \<open>lsq_fit\<close> computes\<close>

lemma sint_of_nat_W: "W < 2 ^ 63 \<Longrightarrow> sint (of_nat W :: i64) = int W"
  by (simp add: signed_of_nat signed_take_bit_int_eq_self)

lemma of_nat_W_nonzero: "0 < W \<Longrightarrow> W < 2 ^ 63 \<Longrightarrow> (of_nat W :: i64) \<noteq> 0"
  using sint_of_nat_W [of W] by auto

lemma map_restore_translate:
  "map ((\<lambda>v. v + off) \<circ> (\<lambda>v. v - off)) xs = (xs :: i64 list)"
  by (induction xs) simp_all

text \<open>
  On a well-formed estimator \<open>lsq_fit\<close> never traps. It returns \<open>-1\<close> with the sample
  stored while the window is filling, \<open>-1\<close> with the time coordinates still translated
  when the denominator is zero, and otherwise the line of the closed form with the time
  coordinates as they were stored.
\<close>

lemma lsq_fit_char:
  assumes wf: "lsq_wf W lsq" and W: "W < 2 ^ 63"
  shows "lsq_fit W lsq new_y new_x =
     (let s = insert_sample W lsq new_y new_x; oldest = lsq_x s ! lsq_next s in
      if \<not> lsq_ready s then Inr (s, None)
      else case lsq_line W oldest (lsq_x s) (lsq_y s) of
             None \<Rightarrow> Inr (s\<lparr>lsq_x := map (\<lambda>v. v - oldest) (lsq_x s)\<rparr>, None)
           | Some mc \<Rightarrow> Inr (s, Some mc))"
proof -
  have len: "length (lsq_x lsq) = W" "length (lsq_y lsq) = W" and nxt: "lsq_next lsq < W"
    using wf by (simp_all add: lsq_wf_def)
  have Wnz: "(of_nat W :: i64) \<noteq> 0" using nxt W by (intro of_nat_W_nonzero) simp_all
  show ?thesis
    using len nxt Wnz W
    by (cases "lsq_ready lsq")
       (auto simp add: lsq_fit_def insert_sample_def lsq_line_def Let_def c_sdiv_def
        translate_x_from restore_x_from sigma_loop_from sint_of_nat_W map_restore_translate
        intro!: lsq_struct.equality)
qed



section \<open>The closed form in the integers\<close>

text \<open>
  Sums and products of 64-bit integers wrap around, but they are read as signed numbers
  only where \<open>lsq_fit\<close> divides and where it tests the denominator. When the
  denominator, the numerator scaled by 100 and the dividend of the intercept, taken over
  the integers, fit 64 bits, the slope and the intercept of the closed form are those
  computed over the integers.
\<close>

lemma sint_fits64: "fits64 z \<Longrightarrow> sint (word_of_int z :: i64) = z"
  by (simp add: fits64_def signed_of_int signed_take_bit_int_eq_self)

lemma word_of_int_sum_list: "(word_of_int (sum_list zs) :: i64) = sum_list (map word_of_int zs)"
  by (induction zs) simp_all

lemma word_of_int_eq_0_fits64: "fits64 z \<Longrightarrow> (word_of_int z :: i64) = 0 \<longleftrightarrow> z = 0"
  using sint_fits64 [of z] by auto

lemma abs_sdiv_le: "\<bar>a sdiv b\<bar> \<le> \<bar>a :: int\<bar>"
proof -
  have nn: "0 \<le> \<bar>a\<bar> div \<bar>b\<bar>"
    by (rule div_int_pos_iff [THEN iffD2]) simp
  have "\<bar>a sdiv b\<bar> = \<bar>sgn a\<bar> * \<bar>sgn b\<bar> * (\<bar>a\<bar> div \<bar>b\<bar>)"
    using nn by (simp add: signed_divide_int_def abs_mult)
  also have "\<dots> \<le> \<bar>a\<bar> div \<bar>b\<bar>"
    using nn by (cases "a = 0"; cases "b = 0") (simp_all add: abs_sgn_eq)
  also have "\<dots> = int (nat \<bar>a\<bar> div nat \<bar>b\<bar>)"
    by (simp add: zdiv_int)
  also have "\<dots> \<le> int (nat \<bar>a\<bar>)"
    using div_le_dividend [of "nat \<bar>a\<bar>" "nat \<bar>b\<bar>"] by (simp only: of_nat_le_iff)
  finally show ?thesis by simp
qed

lemma fits64_sdiv: "fits64 a \<Longrightarrow> fits64 (a sdiv b)"
  unfolding fits64_def using abs_sdiv_le [of a b] by linarith

lemma word_of_int_map2_times:
  "map2 (*) (map word_of_int as) (map word_of_int bs) =
   (map word_of_int (map2 (*) as bs) :: i64 list)"
  by (induction as arbitrary: bs) (auto simp: zip_Cons1 split: list.splits)

lemma word_of_int_squares:
  "map (\<lambda>x. x * x) (map word_of_int as) = (map word_of_int (map (\<lambda>x. x * x) as) :: i64 list)"
  by (induction as) simp_all

lemma lsq_line_in_integers:
  fixes xs ys :: "i64 list" and oldest :: i64 and W :: nat
  defines "tx \<equiv> map (\<lambda>x. sint x - sint oldest) xs" and "yi \<equiv> map sint ys"
  defines "Sx \<equiv> sum_list tx" and "Sy \<equiv> sum_list yi"
    and "Sxy \<equiv> sum_list (map2 (*) tx yi)" and "Sxx \<equiv> sum_list (map (\<lambda>x. x * x) tx)"
  defines "den \<equiv> int W * Sxx - Sx * Sx" and "num \<equiv> (int W * Sxy - Sx * Sy) * 100"
  assumes den: "fits64 den" and num: "fits64 num"
    and rest: "fits64 (Sy - (num sdiv den) * Sx)"
  shows "map_option (\<lambda>(m, c). (sint m, sint c)) (lsq_line W oldest xs ys) =
         lsq_line_int W tx yi"
proof -
  define wSx wSy wSxy wSxx :: i64 where
    "wSx = sum_list (map (\<lambda>x. x - oldest) xs)" and "wSy = sum_list ys" and
    "wSxy = sum_list (map2 (*) (map (\<lambda>x. x - oldest) xs) ys)" and
    "wSxx = sum_list (map (\<lambda>x. x * x) (map (\<lambda>x. x - oldest) xs))"
  define DW NW where "DW = of_nat W * wSxx - wSx * wSx"
    and "NW = (of_nat W * wSxy - wSx * wSy) * 100"
  define SLW where "SLW = (word_of_int (sint NW sdiv sint DW) :: i64)"
  define RW where "RW = wSy - SLW * wSx"
  define ICW where "ICW = (word_of_int (sint RW sdiv int W) :: i64)"
  have L: "lsq_line W oldest xs ys = (if DW = 0 then None else Some (SLW, ICW))"
    unfolding lsq_line_def Let_def ICW_def RW_def SLW_def NW_def DW_def
      wSx_def wSy_def wSxy_def wSxx_def ..
  have wtx: "map (\<lambda>x. x - oldest) xs = map word_of_int tx"
    by (simp add: tx_def)
  have wys: "ys = map word_of_int yi"
    by (simp add: yi_def map_idI)
  have iSx: "wSx = word_of_int Sx"
    unfolding wSx_def wtx Sx_def by (simp only: word_of_int_sum_list)
  have iSy: "wSy = word_of_int Sy"
    unfolding wSy_def Sy_def by (subst wys) (simp only: word_of_int_sum_list)
  have iSxy: "wSxy = word_of_int Sxy"
    unfolding wSxy_def wtx Sxy_def
    by (subst wys) (simp only: word_of_int_map2_times word_of_int_sum_list)
  have iSxx: "wSxx = word_of_int Sxx"
    unfolding wSxx_def wtx Sxx_def by (simp only: word_of_int_squares word_of_int_sum_list)
  have iD: "DW = word_of_int den" by (simp add: DW_def den_def iSx iSxx)
  have iN: "NW = word_of_int num" by (simp add: NW_def num_def iSx iSy iSxy)
  have sD: "sint DW = den" unfolding iD using den by (rule sint_fits64)
  have sN: "sint NW = num" unfolding iN using num by (rule sint_fits64)
  have zD: "DW = 0 \<longleftrightarrow> den = 0" unfolding iD using den by (rule word_of_int_eq_0_fits64)
  let ?slope = "num sdiv den"
  have iSL: "SLW = word_of_int ?slope" by (simp only: SLW_def sD sN)
  have sSL: "sint SLW = ?slope"
    unfolding iSL using fits64_sdiv [OF num] by (rule sint_fits64)
  have iR: "RW = word_of_int (Sy - ?slope * Sx)" by (simp add: RW_def iSL iSy iSx)
  have sR: "sint RW = Sy - ?slope * Sx" unfolding iR using rest by (rule sint_fits64)
  let ?ic = "(Sy - ?slope * Sx) sdiv int W"
  have sIC: "sint ICW = ?ic"
    unfolding ICW_def sR using fits64_sdiv [OF rest] by (rule sint_fits64)
  have R: "lsq_line_int W tx yi = (if den = 0 then None else Some (?slope, ?ic))"
    unfolding lsq_line_int_def Let_def den_def num_def Sx_def Sy_def Sxy_def Sxx_def ..
  show ?thesis
    unfolding L R by (simp add: zD sSL sIC)
qed

section \<open>The stored samples across a call of \<open>lsq_fit\<close>\<close>

lemma insert_sample_wf: "lsq_wf W lsq \<Longrightarrow> lsq_wf W (insert_sample W lsq new_y new_x)"
  by (auto simp: lsq_wf_def insert_sample_def)

lemma lsq_fit_state:
  assumes "lsq_wf W lsq" and "W < 2 ^ 63"
  shows "\<exists>lsq' mc. lsq_fit W lsq new_y new_x = Inr (lsq', mc) \<and> lsq_wf W lsq' \<and>
           lsq_next lsq' = (if Suc (lsq_next lsq) = W then 0 else Suc (lsq_next lsq)) \<and>
           (lsq_ready lsq' \<longleftrightarrow> lsq_ready lsq \<or> Suc (lsq_next lsq) = W) \<and>
           (\<not> lsq_ready lsq' \<longrightarrow> mc = None)"
  using assms(1)
  unfolding lsq_fit_char [OF assms]
  by (auto simp: Let_def lsq_wf_def insert_sample_def split: option.splits)

text \<open>
  When the window is still filling, and when a line is returned, the estimator is left
  with the new sample stored and every other entry as it was.
\<close>

lemma lsq_fit_frame:
  assumes "lsq_wf W lsq" and "W < 2 ^ 63"
    and "lsq_fit W lsq new_y new_x = Inr (lsq', mc)"
    and "mc \<noteq> None \<or> \<not> lsq_ready (insert_sample W lsq new_y new_x)"
  shows "lsq' = insert_sample W lsq new_y new_x"
  using assms(3,4) unfolding lsq_fit_char [OF assms(1,2)]
  by (auto simp: Let_def split: if_splits option.splits)

text \<open>
  When the window is full and the denominator is zero, the time coordinates stay
  translated by the time found at the cursor.
\<close>

lemma lsq_fit_degenerate:
  assumes "lsq_wf W lsq" and "W < 2 ^ 63"
    and "lsq_ready (insert_sample W lsq new_y new_x)"
    and "lsq_fit W lsq new_y new_x = Inr (lsq', None)"
  shows "lsq_x lsq' = map (\<lambda>v. v - lsq_x (insert_sample W lsq new_y new_x) !
                                  lsq_next (insert_sample W lsq new_y new_x))
                        (lsq_x (insert_sample W lsq new_y new_x))"
  using assms(3,4) unfolding lsq_fit_char [OF assms(1,2)]
  by (auto simp: Let_def split: if_splits option.splits)

text \<open>
  C4. The specification states that every call leaves the samples stored earlier
  unchanged, also when it reports a degenerate window. With window length 2, the sample
  \<open>(7, 5)\<close>
  (value 7 at time 5) is stored by a first call; a second call with the sample
  \<open>(9, 5)\<close> finds the window full and the denominator zero, returns \<open>-1\<close>, and leaves
  the time of the first sample as 0 instead of 5.
\<close>

theorem lsq_fit_degenerate_not_restored:
  "lsq_fit 2 \<lparr>lsq_next = 0, lsq_ready = False, lsq_x = [0, 0], lsq_y = [0, 0]\<rparr> 7 5 =
     Inr (\<lparr>lsq_next = 1, lsq_ready = False, lsq_x = [5, 0], lsq_y = [7, 0]\<rparr>, None) \<and>
   lsq_fit 2 \<lparr>lsq_next = 1, lsq_ready = False, lsq_x = [5, 0], lsq_y = [7, 0]\<rparr> 9 5 =
     Inr (\<lparr>lsq_next = 0, lsq_ready = True, lsq_x = [0, 0], lsq_y = [7, 9]\<rparr>, None)"
  by (simp add: lsq_fit_def translate_x.simps sigma_loop.simps Let_def)

section \<open>The ready flag\<close>




section \<open>Translation of the time axis\<close>

lemma lsq_line_shift:
  "lsq_line W (oldest + k) (map (\<lambda>x. x + k) xs) ys = lsq_line W oldest xs ys"
proof -
  have "map (\<lambda>x. x - (oldest + k)) (map (\<lambda>x. x + k) xs) = map (\<lambda>x. x - oldest) xs"
    by (induction xs) simp_all
  then show ?thesis by (simp only: lsq_line_def)
qed

lemma insert_sample_shift:
  "insert_sample W (shift_time k lsq) new_y (new_x + k) =
   shift_time k (insert_sample W lsq new_y new_x)"
  by (simp add: insert_sample_def shift_time_def map_update)

text \<open>
  C7. For every estimator and every constant \<open>k\<close>, the call on the window with \<open>k\<close>
  added to every time coordinate, the new one included, returns the same slope and the
  same intercept (or, alike, no line) as the call on the original window.
\<close>

theorem lsq_fit_offset_invariant:
  assumes "lsq_wf W lsq" and "W < 2 ^ 31"
  shows "returned_line (lsq_fit W (shift_time k lsq) new_y (new_x + k)) =
         returned_line (lsq_fit W lsq new_y new_x)"
proof -
  have W: "W < 2 ^ 63" using assms(2) by (rule less_trans) simp
  have wf': "lsq_wf W (shift_time k lsq)"
    using assms(1) by (simp add: lsq_wf_def shift_time_def)
  let ?s = "insert_sample W lsq new_y new_x"
  have "lsq_wf W ?s" using assms(1) by (rule insert_sample_wf)
  then have nth: "lsq_x (shift_time k ?s) ! lsq_next (shift_time k ?s) = lsq_x ?s ! lsq_next ?s + k"
    by (simp add: shift_time_def lsq_wf_def)
  have rdy: "lsq_ready (shift_time k ?s) = lsq_ready ?s"
    by (simp add: shift_time_def)
  have "lsq_line W (lsq_x (shift_time k ?s) ! lsq_next (shift_time k ?s))
          (lsq_x (shift_time k ?s)) (lsq_y (shift_time k ?s)) =
        lsq_line W (lsq_x ?s ! lsq_next ?s + k) (map (\<lambda>x. x + k) (lsq_x ?s)) (lsq_y ?s)"
    unfolding nth by (simp add: shift_time_def)
  then have line: "lsq_line W (lsq_x (shift_time k ?s) ! lsq_next (shift_time k ?s))
          (lsq_x (shift_time k ?s)) (lsq_y (shift_time k ?s)) =
        lsq_line W (lsq_x ?s ! lsq_next ?s) (lsq_x ?s) (lsq_y ?s)"
    by (simp only: lsq_line_shift)
  show ?thesis
    unfolding lsq_fit_char [OF assms(1) W] lsq_fit_char [OF wf' W] insert_sample_shift
      Let_def line rdy
    by (simp add: returned_line_def split: option.splits)
qed

theorem lsq_fit_offset_invariant_witness:
  "lsq_wf 3 \<lparr>lsq_next = 2, lsq_ready = False, lsq_x = [0, 10, 0], lsq_y = [100, 90, 0]\<rparr> \<and>
   (3::nat) < 2 ^ 31 \<and>
   returned_line (lsq_fit 3
      \<lparr>lsq_next = 2, lsq_ready = False, lsq_x = [0, 10, 0], lsq_y = [100, 90, 0]\<rparr> 80 20) =
     Some (- 100, 1090) \<and>
   returned_line (lsq_fit 3 (shift_time 5000
      \<lparr>lsq_next = 2, lsq_ready = False, lsq_x = [0, 10, 0], lsq_y = [100, 90, 0]\<rparr>) 80 (20 + 5000)) =
     Some (- 100, 1090)"
proof -
  let ?s = "\<lparr>lsq_next = 2, lsq_ready = False, lsq_x = [0, 10, 0], lsq_y = [100, 90, 0]\<rparr>"
  have h: "lsq_wf 3 ?s" "(3::nat) < 2 ^ 31" by (simp_all add: lsq_wf_def)
  have v: "returned_line (lsq_fit 3 ?s 80 20) = Some (- 100, 1090)"
    by (simp add: returned_line_def lsq_fit_def translate_x.simps restore_x.simps
        sigma_loop.simps c_sdiv_def Let_def)
  from lsq_fit_offset_invariant [OF h, of 5000 80 20] v h
  show ?thesis by simp
qed

section \<open>The estimators of the examples\<close>

text \<open>
  The estimators used in the examples below are those a zeroed estimator is in after
  one sample taken at time 0 (window length 2), and after the first two samples of the
  worked example of the specification (window length 3).
\<close>

lemma one_sample_reached:
  "lsq_fit 2 \<lparr>lsq_next = 0, lsq_ready = False, lsq_x = [0, 0], lsq_y = [0, 0]\<rparr> y0 0 =
     Inr (one_sample y0, None)"
  by (simp add: lsq_fit_def one_sample_def Let_def)

lemma worked_example_reached:
  "observe_all 3 \<lparr>lsq_next = 0, lsq_ready = False, lsq_x = [0, 0, 0], lsq_y = [0, 0, 0]\<rparr>
     [(100, 0), (90, 10)] =
   Inr \<lparr>lsq_next = 2, lsq_ready = False, lsq_x = [0, 10, 0], lsq_y = [100, 90, 0]\<rparr>"
  by (simp add: lsq_fit_def Let_def)

section \<open>The first loop of \<open>predict\<close>\<close>

lemma fit_loop_from:
  assumes W: "W < 2 ^ 63"
  shows "N - k = d \<Longrightarrow> k \<le> N \<Longrightarrow> length L = N \<Longrightarrow> length M = N \<Longrightarrow> length C = N \<Longrightarrow>
     (\<forall>j<N. lsq_wf W (L ! j)) \<Longrightarrow>
     \<exists>L' M' C'. fit_loop W N fv k (L, M, C, r) =
          Inr (L', M', C', r \<and> (\<forall>j. k \<le> j \<and> j < N \<longrightarrow> order_fit W fv L j \<noteq> None)) \<and>
        length M' = N \<and> length C' = N \<and>
        (\<forall>j<k. M' ! j = M ! j \<and> C' ! j = C ! j) \<and>
        (\<forall>j mo co. k \<le> j \<and> j < N \<and> order_fit W fv L j = Some (mo, co) \<longrightarrow>
            M' ! j = mo \<and> C' ! j = co)"
proof (induction d arbitrary: k L M C r)
  case 0
  then have "k = N" by simp
  then show ?case using 0 by (subst fit_loop.simps) auto
next
  case (Suc d)
  then have kN: "k < N" by simp
  have wfk: "lsq_wf W (L ! k)" using Suc.prems kN by simp
  from lsq_fit_state [OF wfk W, of "free_pages (fv ! k)" "msecs (fv ! k)"]
  obtain l mc where fit: "lsq_fit W (L ! k) (free_pages (fv ! k)) (msecs (fv ! k)) = Inr (l, mc)"
    and wfl: "lsq_wf W l" by blast
  have ofk: "order_fit W fv L k = mc" by (simp add: order_fit_def fit returned_line_def)
  let ?L = "L[k := l]"
  have same: "order_fit W fv ?L j = order_fit W fv L j" if "Suc k \<le> j" for j
    using that by (simp add: order_fit_def)
  have wf': "\<forall>j<N. lsq_wf W (?L ! j)"
    using Suc.prems wfl by (auto simp: nth_list_update)
  have pre: "N - Suc k = d" "Suc k \<le> N" "length ?L = N" using Suc.prems kN by simp_all
  have split: "(\<forall>j. k \<le> j \<and> j < N \<longrightarrow> order_fit W fv L j \<noteq> None) \<longleftrightarrow>
        mc \<noteq> None \<and> (\<forall>j. Suc k \<le> j \<and> j < N \<longrightarrow> order_fit W fv ?L j \<noteq> None)"
  proof -
    have "k \<le> j \<longleftrightarrow> j = k \<or> Suc k \<le> j" for j by auto
    then show ?thesis using same ofk kN by auto
  qed
  show ?case
  proof (cases mc)
    case None
    from Suc.IH [OF pre Suc.prems(4,5) wf', of False]
    obtain L' M' C' where
      res: "fit_loop W N fv (Suc k) (?L, M, C, False) = Inr (L', M', C', False)"
      and len: "length M' = N" "length C' = N"
      and old: "\<forall>j<Suc k. M' ! j = M ! j \<and> C' ! j = C ! j"
      and new: "\<forall>j mo co. Suc k \<le> j \<and> j < N \<and> order_fit W fv ?L j = Some (mo, co) \<longrightarrow>
            M' ! j = mo \<and> C' ! j = co"
      by auto
    have "fit_loop W N fv k (L, M, C, r) = Inr (L', M', C', False)"
      using kN by (subst fit_loop.simps) (simp add: fit None res)
    moreover have "\<forall>j mo co. k \<le> j \<and> j < N \<and> order_fit W fv L j = Some (mo, co) \<longrightarrow>
            M' ! j = mo \<and> C' ! j = co"
    proof (intro allI impI)
      fix j mo co assume a: "k \<le> j \<and> j < N \<and> order_fit W fv L j = Some (mo, co)"
      then have "j \<noteq> k" using ofk None by auto
      then have "Suc k \<le> j" using a by simp
      then show "M' ! j = mo \<and> C' ! j = co" using new a same by simp
    qed
    ultimately show ?thesis using len old split None by auto
  next
    case (Some p)
    obtain mo co where p: "p = (mo, co)" by (cases p)
    let ?M = "M[k := mo]" and ?C = "C[k := co]"
    have lens: "length ?M = N" "length ?C = N" using Suc.prems by simp_all
    from Suc.IH [OF pre lens wf', of r]
    obtain L' M' C' where
      res: "fit_loop W N fv (Suc k) (?L, ?M, ?C, r) =
              Inr (L', M', C', r \<and> (\<forall>j. Suc k \<le> j \<and> j < N \<longrightarrow> order_fit W fv ?L j \<noteq> None))"
      and len: "length M' = N" "length C' = N"
      and old: "\<forall>j<Suc k. M' ! j = ?M ! j \<and> C' ! j = ?C ! j"
      and new: "\<forall>j mo co. Suc k \<le> j \<and> j < N \<and> order_fit W fv ?L j = Some (mo, co) \<longrightarrow>
            M' ! j = mo \<and> C' ! j = co"
      by auto
    have "fit_loop W N fv k (L, M, C, r) =
            Inr (L', M', C', r \<and> (\<forall>j. Suc k \<le> j \<and> j < N \<longrightarrow> order_fit W fv ?L j \<noteq> None))"
      using kN by (subst fit_loop.simps) (simp add: fit Some p res)
    moreover have "\<forall>j<k. M' ! j = M ! j \<and> C' ! j = C ! j"
      using old by (auto simp: nth_list_update)
    moreover have "\<forall>j mo' co'. k \<le> j \<and> j < N \<and> order_fit W fv L j = Some (mo', co') \<longrightarrow>
            M' ! j = mo' \<and> C' ! j = co'"
    proof (intro allI impI)
      fix j mo' co' assume a: "k \<le> j \<and> j < N \<and> order_fit W fv L j = Some (mo', co')"
      show "M' ! j = mo' \<and> C' ! j = co'"
      proof (cases "j = k")
        case True
        then have "mo' = mo" "co' = co" using a ofk Some p by simp_all
        moreover have "M' ! k = mo" "C' ! k = co"
          using old kN Suc.prems by (simp_all add: nth_list_update)
        ultimately show ?thesis using True by simp
      next
        case False
        then have "Suc k \<le> j" using a by simp
        then show ?thesis using new a same by simp
      qed
    qed
    ultimately show ?thesis using len split Some by auto
  qed
qed


lemma fit_loop_ready:
  assumes "W < 2 ^ 63" and "length lsq = N" and "\<forall>j<N. lsq_wf W (lsq ! j)"
    and "length m = N" and "length c = N"
    and "\<forall>j<N. order_fit W fv lsq j = Some (m ! j, c ! j)"
  shows "\<exists>L'. fit_loop W N fv 0 (lsq, replicate N 0, replicate N 0, True) = Inr (L', m, c, True)"
proof -
  from fit_loop_from [OF assms(1), of N 0 N lsq "replicate N 0" "replicate N 0" fv True] assms(2,3)
  obtain L' M' C' where
    res: "fit_loop W N fv 0 (lsq, replicate N 0, replicate N 0, True) =
      Inr (L', M', C', True \<and> (\<forall>j. 0 \<le> j \<and> j < N \<longrightarrow> order_fit W fv lsq j \<noteq> None))"
    and len: "length M' = N" "length C' = N"
    and new: "\<forall>j mo co. 0 \<le> j \<and> j < N \<and> order_fit W fv lsq j = Some (mo, co) \<longrightarrow>
            M' ! j = mo \<and> C' ! j = co"
    by auto
  have "M' = m" using len assms(4,6) new by (intro nth_equalityI) auto
  moreover have "C' = c" using len assms(5,6) new by (intro nth_equalityI) auto
  moreover have "\<forall>j. 0 \<le> j \<and> j < N \<longrightarrow> order_fit W fv lsq j \<noteq> None"
    using assms(6) by auto
  ultimately show ?thesis using res by auto
qed

text \<open>
  When every order yields a line, \<open>predict\<close> is the branch on order 0 followed by the
  compaction loop started at order \<open>MAX_ORDER - 1\<close>, on the slopes and intercepts of
  those lines.
\<close>

lemma predict_when_ready:
  assumes wf: "predict_wf env frag_vec lsq"
    and len: "length m = MAX_ORDER env" "length c = MAX_ORDER env"
    and lines: "\<forall>j<MAX_ORDER env. order_fit (LSQ_LOOKBACK env) frag_vec lsq j = Some (m ! j, c ! j)"
  shows "\<exists>lsq'. predict env clock frag_vec lsq high_wmark =
     (case reclaim_branch env (m ! 0) (free_pages (frag_vec ! 0)) high_wmark 0 of
        Inl e \<Rightarrow> Inl e
      | Inr (Return r) \<Rightarrow> Inr (lsq', r)
      | Inr (Continue retval) \<Rightarrow>
         (case compact_scan env clock m c retval (MAX_ORDER env - 1) of
            Inl e \<Rightarrow> Inl e
          | Inr r \<Rightarrow> Inr (lsq', r)))"
proof -
  have "LSQ_LOOKBACK env < 2 ^ 31" using wf by (simp add: predict_wf_def)
  then have W: "LSQ_LOOKBACK env < 2 ^ 63" by (rule less_trans) simp
  from wf have l: "length lsq = MAX_ORDER env"
    and w: "\<forall>j<MAX_ORDER env. lsq_wf (LSQ_LOOKBACK env) (lsq ! j)"
    by (simp_all add: predict_wf_def)
  from fit_loop_ready [OF W l w len lines]
  obtain L' where "fit_loop (LSQ_LOOKBACK env) (MAX_ORDER env) frag_vec 0
      (lsq, replicate (MAX_ORDER env) 0, replicate (MAX_ORDER env) 0, True) = Inr (L', m, c, True)"
    by blast
  then show ?thesis by (auto simp: predict_def)
qed

lemma all_less_two: "(\<forall>j<(2::nat). P j) \<longleftrightarrow> P 0 \<and> P (Suc 0)"
  by (auto simp: less_2_cases_iff)

lemmas run_lsq_fit = order_fit_def returned_line_def lsq_fit_def translate_x.simps
  restore_x.simps sigma_loop.simps c_sdiv_def Let_def one_sample_def



section \<open>The compaction loop\<close>

lemma compact_scan_parallel:
  "(\<forall>j. 0 < j \<and> j \<le> k \<longrightarrow> m ! j = m ! 0) \<Longrightarrow> compact_scan env clock m c retval k = Inr retval"
  by (induction k) simp_all

lemma compact_scan_rate_zero:
  "compaction_rate env = 0 \<Longrightarrow>
   compact_scan env clock m c retval k =
     Inr (if \<forall>j. 0 < j \<and> j \<le> k \<longrightarrow> m ! j = m ! 0 then retval else 0)"
proof (induction k)
  case 0
  then show ?case by simp
next
  case (Suc k)
  show ?case
  proof (cases "m ! 0 = m ! Suc k")
    case True
    have "(\<forall>j. 0 < j \<and> j \<le> Suc k \<longrightarrow> m ! j = m ! 0) \<longleftrightarrow> (\<forall>j. 0 < j \<and> j \<le> k \<longrightarrow> m ! j = m ! 0)"
      using True by (auto simp: le_Suc_eq)
    then show ?thesis using True Suc by simp
  next
    case False
    then have ne: "\<not> (\<forall>j. 0 < j \<and> j \<le> Suc k \<longrightarrow> m ! j = m ! 0)" by auto
    have "compact_scan env clock m c retval (Suc k) = Inr 0"
      using False Suc.prems by simp
    with ne show ?thesis by (simp only: if_False)
  qed
qed

lemmas run_predict = predict_def fit_loop.simps lsq_fit_def translate_x.simps restore_x.simps
  sigma_loop.simps c_sdiv_def c_udiv_def reclaim_branch_def abs_int_def clock_expr_def
  time_taken_expr_def sdiv_const_def ex_env_def one_sample_def clock_at_def Let_def
  word_sle_eq word_sless_alt

text \<open>
  C9. With a compaction rate of zero, when every order from 1 to \<open>MAX_ORDER - 1\<close> has
  the slope of order 0, \<open>predict\<close> does not take the early return of the compaction
  loop: it returns the bits that the branch on order 0 left.
\<close>

theorem predict_parallel_keeps_flags:
  assumes "predict_wf env frag_vec lsq"
    and "length m = MAX_ORDER env" and "length c = MAX_ORDER env"
    and "\<forall>j<MAX_ORDER env. order_fit (LSQ_LOOKBACK env) frag_vec lsq j = Some (m ! j, c ! j)"
    and "compaction_rate env = 0"
    and "\<forall>j. 0 < j \<and> j < MAX_ORDER env \<longrightarrow> m ! j = m ! 0"
    and "reclaim_branch env (m ! 0) (free_pages (frag_vec ! 0)) high_wmark 0 = Inr oc"
  shows "\<exists>lsq'. predict env clock frag_vec lsq high_wmark = Inr (lsq', outcome_flags oc)"
proof -
  have N: "0 < MAX_ORDER env" using assms(1) by (simp add: predict_wf_def)
  have par: "\<forall>j. 0 < j \<and> j \<le> MAX_ORDER env - Suc 0 \<longrightarrow> m ! j = m ! 0"
    using assms(6) N by auto
  from predict_when_ready [OF assms(1-4), of clock high_wmark] assms(7)
  show ?thesis
    by (cases oc) (auto simp: compact_scan_parallel [OF par])
qed

theorem predict_parallel_keeps_flags_witness:
  "predict_wf (ex_env 2 2 1 0)
     [\<lparr>free_pages = 200, msecs = 100\<rparr>, \<lparr>free_pages = 300, msecs = 100\<rparr>]
     [one_sample 100, one_sample 200] \<and>
   MAX_ORDER (ex_env 2 2 1 0) = 2 \<and>
   order_fit (LSQ_LOOKBACK (ex_env 2 2 1 0))
     [\<lparr>free_pages = 200, msecs = 100\<rparr>, \<lparr>free_pages = 300, msecs = 100\<rparr>]
     [one_sample 100, one_sample 200] 0 = Some (100, - 4850) \<and>
   order_fit (LSQ_LOOKBACK (ex_env 2 2 1 0))
     [\<lparr>free_pages = 200, msecs = 100\<rparr>, \<lparr>free_pages = 300, msecs = 100\<rparr>]
     [one_sample 100, one_sample 200] 1 = Some (100, - 4750) \<and>
   compaction_rate (ex_env 2 2 1 0) = 0 \<and>
   reclaim_branch (ex_env 2 2 1 0) 100 200 50 0 = Inr (Continue 4) \<and>
   (\<exists>lsq'. predict (ex_env 2 2 1 0) (clock_at 1 0)
      [\<lparr>free_pages = 200, msecs = 100\<rparr>, \<lparr>free_pages = 300, msecs = 100\<rparr>]
      [one_sample 100, one_sample 200] 50 = Inr (lsq', 4))"
proof -
  let ?env = "ex_env 2 2 1 0"
  let ?fv = "[\<lparr>free_pages = 200, msecs = 100\<rparr>, \<lparr>free_pages = 300, msecs = 100\<rparr>]"
  let ?lsq = "[one_sample 100, one_sample 200]"
  let ?m = "[100, 100 :: i64]" and ?c = "[- 4850, - 4750 :: i64]"
  have h1: "predict_wf ?env ?fv ?lsq"
    by (simp add: predict_wf_def ex_env_def one_sample_def lsq_wf_def all_less_two)
  have h2: "length ?m = MAX_ORDER ?env" and h3: "length ?c = MAX_ORDER ?env"
    by (simp_all add: ex_env_def)
  have h4: "\<forall>j<MAX_ORDER ?env. order_fit (LSQ_LOOKBACK ?env) ?fv ?lsq j = Some (?m ! j, ?c ! j)"
    by (simp add: ex_env_def all_less_two run_lsq_fit)
  have h5: "compaction_rate ?env = 0" by (simp add: ex_env_def)
  have h6: "\<forall>j. 0 < j \<and> j < MAX_ORDER ?env \<longrightarrow> ?m ! j = ?m ! 0"
    by (auto simp: ex_env_def less_2_cases_iff)
  have h7: "reclaim_branch ?env (?m ! 0) (free_pages (?fv ! 0)) 50 0 = Inr (Continue 4)"
    by (simp add: reclaim_branch_def ex_env_def word_sle_eq)
  have v: "MAX_ORDER ?env = 2"
    "order_fit (LSQ_LOOKBACK ?env) ?fv ?lsq 0 = Some (100, - 4850)"
    "order_fit (LSQ_LOOKBACK ?env) ?fv ?lsq 1 = Some (100, - 4750)"
    by (simp_all add: ex_env_def run_lsq_fit)
  from predict_parallel_keeps_flags [OF h1 h2 h3 h4 h5 h6 h7, of "clock_at 1 0"]
    h1 h5 h7 v
  show ?thesis by simp
qed

text \<open>
  C2, as stated, fails. With a compaction rate of zero and both orders ready with equal
  slopes, the loop skips order 1 before it looks at the rate, and \<open>predict\<close> returns
  the reclaim bit that the branch on order 0 set.
\<close>

theorem zero_compaction_rate_counterexample:
  "compaction_rate (ex_env 2 2 1 0) = 0 \<and>
   order_fit 2 [\<lparr>free_pages = 0, msecs = 100\<rparr>, \<lparr>free_pages = 100, msecs = 100\<rparr>]
     [one_sample 100, one_sample 200] 0 = Some (- 100, 5050) \<and>
   order_fit 2 [\<lparr>free_pages = 0, msecs = 100\<rparr>, \<lparr>free_pages = 100, msecs = 100\<rparr>]
     [one_sample 100, one_sample 200] 1 = Some (- 100, 5150) \<and>
   predict (ex_env 2 2 1 0) (clock_at 1 0)
     [\<lparr>free_pages = 0, msecs = 100\<rparr>, \<lparr>free_pages = 100, msecs = 100\<rparr>]
     [one_sample 100, one_sample 200] 50 =
     Inr ([\<lparr>lsq_next = 0, lsq_ready = True, lsq_x = [0, 100], lsq_y = [100, 0]\<rparr>,
           \<lparr>lsq_next = 0, lsq_ready = True, lsq_x = [0, 100], lsq_y = [200, 100]\<rparr>],
          MEMPREDICT_RECLAIM (ex_env 2 2 1 0)) \<and>
   MEMPREDICT_RECLAIM (ex_env 2 2 1 0) \<noteq> 0"
  by (simp add: run_predict order_fit_def returned_line_def)

text \<open>
  C2, amended. When every order yields a line, the branch on order 0 completes and the
  compaction rate is zero, the returned flags never contain the compact bit (the three
  bits being distinct), and they are empty whenever some order from 1 to
  \<open>MAX_ORDER - 1\<close> has a slope different from that of order 0, also when the branch on
  order 0 had set a bit.
\<close>

theorem predict_zero_compaction_rate:
  assumes "predict_wf env frag_vec lsq"
    and "length m = MAX_ORDER env" and "length c = MAX_ORDER env"
    and "\<forall>j<MAX_ORDER env. order_fit (LSQ_LOOKBACK env) frag_vec lsq j = Some (m ! j, c ! j)"
    and "compaction_rate env = 0"
    and "reclaim_branch env (m ! 0) (free_pages (frag_vec ! 0)) high_wmark 0 = Inr oc"
    and "MEMPREDICT_LOWER_WMARKS env AND MEMPREDICT_COMPACT env = 0"
    and "MEMPREDICT_RECLAIM env AND MEMPREDICT_COMPACT env = 0"
  shows "\<exists>lsq' r. predict env clock frag_vec lsq high_wmark = Inr (lsq', r) \<and>
           r AND MEMPREDICT_COMPACT env = 0 \<and>
           ((\<exists>j. 0 < j \<and> j < MAX_ORDER env \<and> m ! j \<noteq> m ! 0) \<longrightarrow> r = 0)"
proof -
  have flags: "outcome_flags oc AND MEMPREDICT_COMPACT env = 0"
    using assms(6,7,8)
    by (auto simp: reclaim_branch_def c_udiv_def split: if_splits)
  have N: "0 < MAX_ORDER env" using assms(1) by (simp add: predict_wf_def)
  have "j \<le> MAX_ORDER env - Suc 0 \<longleftrightarrow> j < MAX_ORDER env" for j using N by auto
  then have iff: "(\<forall>j. 0 < j \<and> j \<le> MAX_ORDER env - Suc 0 \<longrightarrow> m ! j = m ! 0) \<longleftrightarrow>
        \<not> (\<exists>j. 0 < j \<and> j < MAX_ORDER env \<and> m ! j \<noteq> m ! 0)"
    by auto
  have ret0: "r = 0" if "oc = Return r" for r
    using assms(6) that by (auto simp: reclaim_branch_def c_udiv_def split: if_splits)
  from predict_when_ready [OF assms(1-4), of clock high_wmark] assms(6)
  show ?thesis
    using flags ret0
    by (cases oc) (auto simp: compact_scan_rate_zero [OF assms(5)] iff)
qed

theorem predict_zero_compaction_rate_witness:
  "predict_wf (ex_env 2 2 1 0)
     [\<lparr>free_pages = 200, msecs = 100\<rparr>, \<lparr>free_pages = 300, msecs = 100\<rparr>]
     [one_sample 100, one_sample 300] \<and>
   MAX_ORDER (ex_env 2 2 1 0) = 2 \<and>
   order_fit (LSQ_LOOKBACK (ex_env 2 2 1 0))
     [\<lparr>free_pages = 200, msecs = 100\<rparr>, \<lparr>free_pages = 300, msecs = 100\<rparr>]
     [one_sample 100, one_sample 300] 0 = Some (100, - 4850) \<and>
   order_fit (LSQ_LOOKBACK (ex_env 2 2 1 0))
     [\<lparr>free_pages = 200, msecs = 100\<rparr>, \<lparr>free_pages = 300, msecs = 100\<rparr>]
     [one_sample 100, one_sample 300] 1 = Some (0, 300) \<and>
   compaction_rate (ex_env 2 2 1 0) = 0 \<and>
   reclaim_branch (ex_env 2 2 1 0) 100 200 50 0 = Inr (Continue 4) \<and>
   MEMPREDICT_LOWER_WMARKS (ex_env 2 2 1 0) AND MEMPREDICT_COMPACT (ex_env 2 2 1 0) = 0 \<and>
   MEMPREDICT_RECLAIM (ex_env 2 2 1 0) AND MEMPREDICT_COMPACT (ex_env 2 2 1 0) = 0 \<and>
   (\<exists>lsq'. predict (ex_env 2 2 1 0) (clock_at 1 0)
      [\<lparr>free_pages = 200, msecs = 100\<rparr>, \<lparr>free_pages = 300, msecs = 100\<rparr>]
      [one_sample 100, one_sample 300] 50 = Inr (lsq', 0))"
proof -
  let ?env = "ex_env 2 2 1 0"
  let ?fv = "[\<lparr>free_pages = 200, msecs = 100\<rparr>, \<lparr>free_pages = 300, msecs = 100\<rparr>]"
  let ?lsq = "[one_sample 100, one_sample 300]"
  let ?m = "[100, 0 :: i64]" and ?c = "[- 4850, 300 :: i64]"
  have h1: "predict_wf ?env ?fv ?lsq"
    by (simp add: predict_wf_def ex_env_def one_sample_def lsq_wf_def all_less_two)
  have h2: "length ?m = MAX_ORDER ?env" and h3: "length ?c = MAX_ORDER ?env"
    by (simp_all add: ex_env_def)
  have h4: "\<forall>j<MAX_ORDER ?env. order_fit (LSQ_LOOKBACK ?env) ?fv ?lsq j = Some (?m ! j, ?c ! j)"
    by (simp add: ex_env_def all_less_two run_lsq_fit)
  have h5: "compaction_rate ?env = 0" by (simp add: ex_env_def)
  have h6: "reclaim_branch ?env (?m ! 0) (free_pages (?fv ! 0)) 50 0 = Inr (Continue 4)"
    by (simp add: reclaim_branch_def ex_env_def word_sle_eq)
  have h7: "MEMPREDICT_LOWER_WMARKS ?env AND MEMPREDICT_COMPACT ?env = 0"
    and h8: "MEMPREDICT_RECLAIM ?env AND MEMPREDICT_COMPACT ?env = 0"
    by (simp_all add: ex_env_def)
  have ex: "\<exists>j. 0 < j \<and> j < MAX_ORDER ?env \<and> ?m ! j \<noteq> ?m ! 0"
    by (rule exI [of _ 1]) (simp add: ex_env_def)
  have v: "MAX_ORDER ?env = 2"
    "order_fit (LSQ_LOOKBACK ?env) ?fv ?lsq 0 = Some (100, - 4850)"
    "order_fit (LSQ_LOOKBACK ?env) ?fv ?lsq 1 = Some (0, 300)"
    by (simp_all add: ex_env_def run_lsq_fit)
  from predict_zero_compaction_rate [OF h1 h2 h3 h4 h5 h6 h7 h8, of "clock_at 1 0"] ex
  obtain lsq' where "predict ?env (clock_at 1 0) ?fv ?lsq 50 = Inr (lsq', 0)" by blast
  with h1 h5 h6 h7 h8 v show ?thesis by simp
qed


text \<open>
  For a reading of 1 s and 500000000 ns the time in milliseconds is 1500. The expression
  compared with \<open>x_cross\<close> is 501000, since \<^verbatim>\<open>tv_nsec/1000\<close> counts microseconds, and
  the expression assigned to \<open>time_taken\<close> adds that term to \<open>x_cross - tv_sec * 1000\<close>
  where the difference to the current time would subtract it. The two expressions agree
  with the time in milliseconds exactly on readings whose nanosecond field is below 1000.
\<close>

lemma clock_expr_half_second:
  "now_msec \<lparr>tv_sec = 1, tv_nsec = 500000000\<rparr> = 1500 \<and>
   clock_expr \<lparr>tv_sec = 1, tv_nsec = 500000000\<rparr> = 501000 \<and>
   time_taken_expr 2000 \<lparr>tv_sec = 1, tv_nsec = 500000000\<rparr> = 501000"
  by (simp add: now_msec_def clock_expr_def time_taken_expr_def sdiv_const_def)




section \<open>Divisions\<close>

lemma lsq_fit_no_fault: "lsq_wf W lsq \<Longrightarrow> W < 2 ^ 63 \<Longrightarrow> lsq_fit W lsq new_y new_x \<noteq> Inl e"
  using lsq_fit_state [of W lsq new_y new_x] by auto

lemma compact_scan_no_fault: "compact_scan env clock m c retval k \<noteq> Inl e"
  by (induction k) (auto simp: c_sdiv_def Let_def)

lemma scast_abs_int_zero: "(scast (abs_int j) :: i64) = 0 \<longleftrightarrow> j = 0"
proof -
  have "(scast (w :: i32) :: i64) = 0 \<longleftrightarrow> w = 0" for w
  proof
    assume "(scast w :: i64) = 0"
    then have "sint (scast w :: i64) = 0" by simp
    then have "sint w = 0" by (simp add: sint_up_scast is_up)
    then show "w = 0" by (simp add: signed_eq_0_iff)
  qed simp
  then show ?thesis by (auto simp: abs_int_def)
qed

text \<open>
  The branch on order 0 traps exactly when it reaches the division by \<open>abs(m[0])\<close> with
  a slope whose low 32 bits are zero.
\<close>

lemma reclaim_branch_fault_iff:
  "reclaim_branch env m0 fp high_wmark retval = Inl e \<longleftrightarrow>
     \<not> 0 \<le>s m0 \<and> reclaim_rate env \<noteq> 0 \<and> \<not> fp \<le> high_wmark \<and> (ucast m0 :: i32) = 0"
  by (cases e) (auto simp: reclaim_branch_def c_udiv_def scast_abs_int_zero)

text \<open>
  No other division of \<open>predict\<close> or \<open>lsq_fit\<close> has a zero divisor: when \<open>predict\<close>
  traps, it does so in that division.
\<close>

lemma predict_traps_only_in_abs:
  assumes wf: "predict_wf env frag_vec lsq"
    and trap: "predict env clock frag_vec lsq high_wmark = Inl e"
  shows "\<exists>m0 c0. order_fit (LSQ_LOOKBACK env) frag_vec lsq 0 = Some (m0, c0) \<and>
           \<not> 0 \<le>s m0 \<and> reclaim_rate env \<noteq> 0 \<and>
           \<not> free_pages (frag_vec ! 0) \<le> high_wmark \<and> (ucast m0 :: i32) = 0"
proof -
  let ?W = "LSQ_LOOKBACK env" and ?N = "MAX_ORDER env"
  have "?W < 2 ^ 31" using wf by (simp add: predict_wf_def)
  then have W: "?W < 2 ^ 63" by (rule less_trans) simp
  from wf have N: "0 < ?N" and l: "length lsq = ?N"
    and w: "\<forall>j<?N. lsq_wf ?W (lsq ! j)"
    by (simp_all add: predict_wf_def)
  from fit_loop_from [OF W, of ?N 0 ?N lsq "replicate ?N 0" "replicate ?N 0" frag_vec True] l w
  obtain L' M' C' where
    res: "fit_loop ?W ?N frag_vec 0 (lsq, replicate ?N 0, replicate ?N 0, True) =
      Inr (L', M', C', True \<and> (\<forall>j. 0 \<le> j \<and> j < ?N \<longrightarrow> order_fit ?W frag_vec lsq j \<noteq> None))"
    and new: "\<forall>j mo co. 0 \<le> j \<and> j < ?N \<and> order_fit ?W frag_vec lsq j = Some (mo, co) \<longrightarrow>
            M' ! j = mo \<and> C' ! j = co"
    by auto
  show ?thesis
  proof (cases "\<forall>j. 0 \<le> j \<and> j < ?N \<longrightarrow> order_fit ?W frag_vec lsq j \<noteq> None")
    case False
    then have "predict env clock frag_vec lsq high_wmark = Inr (L', 0)"
      using res by (simp add: predict_def)
    with trap show ?thesis by simp
  next
    case True
    then obtain m0 c0 where fit0: "order_fit ?W frag_vec lsq 0 = Some (m0, c0)"
      using N by fastforce
    then have M0: "M' ! 0 = m0" using new N by auto
    have "reclaim_branch env m0 (free_pages (frag_vec ! 0)) high_wmark 0 = Inl e"
    proof (cases "reclaim_branch env m0 (free_pages (frag_vec ! 0)) high_wmark 0")
      case (Inl e')
      then have "predict env clock frag_vec lsq high_wmark = Inl e'"
        using res True M0 by (simp add: predict_def)
      with trap Inl show ?thesis by simp
    next
      case (Inr oc)
      then have False
        using res True M0 trap compact_scan_no_fault [of env clock M' C' _ "?N - 1"]
        by (cases oc) (auto simp: predict_def split: sum.splits)
      then show ?thesis ..
    qed
    then show ?thesis using fit0 by (auto simp: reclaim_branch_fault_iff)
  qed
qed

text \<open>
  C10. The specification states that no division of \<open>lsq_fit\<close> or \<open>predict\<close> can
  have a zero divisor. With window length 2 and a single order, free pages falling from
  2147483648 at time 0 to 1073741824 at time 25 give the slope \<open>-4294967296\<close>, which is
  negative; \<open>abs\<close> takes an \<open>int\<close>, the slope converted to \<open>int\<close> is 0, and the division
  by \<open>abs(m[0])\<close> has the divisor 0.
\<close>

theorem predict_abs_division_traps:
  "order_fit 2 [\<lparr>free_pages = 1073741824, msecs = 25\<rparr>] [one_sample 2147483648] 0 =
     Some (- 4294967296, 55297703936) \<and>
   predict (ex_env 2 1 1 1) (clock_at 1 0) [\<lparr>free_pages = 1073741824, msecs = 25\<rparr>]
     [one_sample 2147483648] 1000 = Inl DivByZero"
  by (simp add: run_predict order_fit_def returned_line_def)

section \<open>The worked example\<close>

text \<open>
  C8. The specification states that the samples \<open>(100, 0)\<close>, \<open>(90, 10)\<close>, \<open>(80, 20)\<close>
  with window length 3 give a slope of about \<open>-100\<close> and an intercept of about 100, and that with
  a reclaim rate of 2 and a high watermark of 50 the reclaim bit is not set. The code
  returns the slope \<open>-100\<close> and the intercept 1090, and the empty flag set.
\<close>

theorem worked_example_intercept:
  "lsq_fit 3 \<lparr>lsq_next = 2, lsq_ready = False, lsq_x = [0, 10, 0], lsq_y = [100, 90, 0]\<rparr> 80 20 =
     Inr (\<lparr>lsq_next = 0, lsq_ready = True, lsq_x = [0, 10, 20], lsq_y = [100, 90, 80]\<rparr>,
          Some (- 100, 1090)) \<and>
   reclaim_branch (ex_env 3 1 2 1) (- 100) 80 50 0 = Inr (Continue 0) \<and>
   predict (ex_env 3 1 2 1) (clock_at 1 0) [\<lparr>free_pages = 80, msecs = 20\<rparr>]
     [\<lparr>lsq_next = 2, lsq_ready = False, lsq_x = [0, 10, 0], lsq_y = [100, 90, 0]\<rparr>] 50 =
     Inr ([\<lparr>lsq_next = 0, lsq_ready = True, lsq_x = [0, 10, 20], lsq_y = [100, 90, 80]\<rparr>], 0)"
  by (simp add: run_predict)

end
